theory Spec2Isabelle
  imports Main "HOL-Library.List_Lexorder" "HOL-Library.Multiset"
begin

section \<open>update_image_dates.py: data\<close>

text \<open>
  A Python \<^verbatim>\<open>str\<close> is a list of code points. Python compares two of them code point
  by code point, a proper prefix first: the order of \<^theory_text>\<open>List_Lexorder\<close> on lists of
  numbers. \<open>ascii\<close> writes a string whose characters are all ASCII.
\<close>

type_synonym str = "nat list"

definition ascii :: "string \<Rightarrow> str" where
  "ascii s = map of_char s"

type_synonym path = str

text \<open>
  A \<^verbatim>\<open>datetime\<close> is the number of microseconds since \<^verbatim>\<open>datetime.min\<close>
  (0001-01-01 00:00:00); \<^verbatim>\<open>datetime.max\<close> is 9999-12-31 23:59:59.999999,
  day 3652059 of the calendar.
\<close>

type_synonym datetime = int

definition MAX_DATETIME :: datetime where
  "MAX_DATETIME = 3652059 * 86400000000 - 1"

text \<open>\<^verbatim>\<open>timedelta(minutes=m)\<close>, in microseconds.\<close>

definition timedelta_minutes :: "int \<Rightarrow> int" where
  "timedelta_minutes m = m * 60000000"

text \<open>
  The two external commands of the loop. \<open>Touch d p\<close> is the argument list
  \<^verbatim>\<open>['touch', '-mt', d.strftime("%Y%m%d%H%M.%S"), p]\<close> and \<open>SetFile d p\<close> is
  \<^verbatim>\<open>['SetFile', '-d', d.strftime("%m/%d/%Y %H:%M:%S"), p]\<close>: the timestamp a command
  carries is the value of \<^verbatim>\<open>current_date\<close> it was formatted from.
\<close>

datatype cmd = Touch datetime path | SetFile datetime path

text \<open>
  What starting a command gives: its return code, or no process at all, because the
  executable is not installed (\<^verbatim>\<open>Popen\<close> raises \<^verbatim>\<open>FileNotFoundError\<close>) or may not
  be executed (\<^verbatim>\<open>PermissionError\<close>).
\<close>

datatype proc_outcome = Exit int | NoSuchCommand | NotExecutable

text \<open>
  The exceptions of a run: those raised inside the \<^verbatim>\<open>try\<close> block of the loop, and
  the \<^verbatim>\<open>OSError\<close>s of the directory scan.
\<close>

datatype exception =
    CalledProcessError cmd int
  | FileNotFoundError
  | PermissionError
  | OSError
  | OverflowError

text \<open>A directory entry as \<^verbatim>\<open>os.scandir\<close> yields it.\<close>

record DirEntry =
  name :: str
  is_file :: bool

text \<open>\<^verbatim>\<open>Optional[Union[str, datetime]]\<close>\<close>

datatype start_date = NoDate | DateStr str | DateTime datetime

text \<open>
  The world the function runs in.
  \<^item> \<open>isdir\<close> is \<^verbatim>\<open>os.path.isdir\<close>.
  \<^item> \<open>scandir\<close> is what the \<^verbatim>\<open>with os.scandir(...)\<close> block of lines 42 to 45 gets from
    the file system: the entries in the order they are yielded, each with the answer
    of its \<^verbatim>\<open>is_file()\<close>, or the \<^verbatim>\<open>OSError\<close> that opening the directory, reading
    it or asking an entry raises (a directory that may not be listed, say).
  \<^item> \<open>now\<close> is the clock's reading, \<^verbatim>\<open>datetime.now()\<close>.
  \<^item> \<open>strptime s f\<close> is the library's \<^verbatim>\<open>datetime.strptime(s, f)\<close>, \<open>None\<close> where it
    raises \<^verbatim>\<open>ValueError\<close>.
  \<^item> \<open>unicode_lower\<close> is \<^verbatim>\<open>str.lower()\<close> on a string that is not pure ASCII: the
    lowering by the tables of the Unicode database.
  \<^item> \<open>spawn\<close> is the outcome of each external command.
  Printing is taken to succeed.
\<close>

record env =
  isdir :: "path \<Rightarrow> bool"
  scandir :: "path \<Rightarrow> exception + DirEntry list"
  now :: datetime
  strptime :: "str \<Rightarrow> str \<Rightarrow> datetime option"
  unicode_lower :: "str \<Rightarrow> str"
  spawn :: "cmd \<Rightarrow> proc_outcome"

text \<open>The lines the function prints, one constructor per \<^verbatim>\<open>print\<close> call.\<close>

datatype message =
    NotAValidDirectory path
  | IncrementMustBePositive
  | NoImageFilesFound
  | InvalidDateFormat
  | FoundImageFiles nat
  | StartingDate datetime
  | IncrementMinutes int
  | Updated nat nat str datetime
  | ErrorUpdating path exception
  | NoteSetFileNotFound
  | NoteInstallWith

text \<open>
  How a call of \<^verbatim>\<open>update_image_dates\<close> ends: at one of its \<^verbatim>\<open>return\<close>
  statements, at the end of the loop, at the \<^verbatim>\<open>break\<close>, or with an exception
  that no handler catches and the caller receives.
\<close>

datatype exit_kind =
    ReturnNotDirectory
  | ReturnBadIncrement
  | ReturnNoFiles
  | ReturnBadDate
  | LoopFinished
  | BreakAfterError
  | ReturnAfterError
  | Raised exception

record result =
  exit_by :: exit_kind
  calls :: "cmd list"
  printed :: "message list"

section \<open>Library functions the code calls\<close>

text \<open>
  \<^verbatim>\<open>str.lower()\<close>. A string of ASCII characters only is lowered letter by letter,
  \<^verbatim>\<open>A\<close> to \<^verbatim>\<open>Z\<close> (65 to 90) moving up by 32; any other string is lowered by the
  tables of the Unicode database, which the world supplies.
\<close>

definition ascii_lower :: "nat \<Rightarrow> nat" where
  "ascii_lower c = (if 65 \<le> c \<and> c \<le> 90 then c + 32 else c)"

definition isascii :: "str \<Rightarrow> bool" where
  "isascii s = list_all (\<lambda>c. c < 128) s"

definition lower :: "env \<Rightarrow> str \<Rightarrow> str" where
  "lower E s = (if isascii s then map ascii_lower s else unicode_lower E s)"

text \<open>\<^verbatim>\<open>s.rfind(c)\<close>: the last index of \<open>c\<close>, or -1.\<close>

definition rfind :: "nat \<Rightarrow> str \<Rightarrow> int" where
  "rfind c s =
     (if c \<in> set s
      then int (length s) - 1 - int (length (takeWhile (\<lambda>x. x \<noteq> c) (rev s)))
      else - 1)"

text \<open>The separator \<^verbatim>\<open>/\<close> and the extension separator \<^verbatim>\<open>.\<close> of \<^verbatim>\<open>posixpath\<close>.\<close>

definition sep :: nat where
  "sep = 47"

definition extsep :: nat where
  "extsep = 46"

text \<open>
  \<^verbatim>\<open>genericpath._splitext(p, '/', None, '.')\<close>, which \<^verbatim>\<open>os.path.splitext\<close> is on a
  POSIX system:
  \<^verbatim>\<open>
    sepIndex = p.rfind(sep)
    dotIndex = p.rfind(extsep)
    if dotIndex > sepIndex:
        filenameIndex = sepIndex + 1
        while filenameIndex < dotIndex:
            if p[filenameIndex:filenameIndex+1] != extsep:
                return p[:dotIndex], p[dotIndex:]
            filenameIndex += 1
    return p, p[:0]
  \<close>
  \<open>splitext_loop\<close> is the \<^verbatim>\<open>while\<close> loop: \<open>True\<close> when it returns from inside.
\<close>

function splitext_loop :: "str \<Rightarrow> nat \<Rightarrow> nat \<Rightarrow> bool" where
  "splitext_loop p filenameIndex dotIndex =
     (if filenameIndex < dotIndex
      then (if p ! filenameIndex \<noteq> extsep then True
            else splitext_loop p (Suc filenameIndex) dotIndex)
      else False)"
  by pat_completeness auto
termination
  by (relation "measure (\<lambda>(p, filenameIndex, dotIndex). dotIndex - filenameIndex)") auto

definition splitext :: "str \<Rightarrow> str \<times> str" where
  "splitext p =
     (let sepIndex = rfind sep p;
          dotIndex = rfind extsep p
      in if dotIndex > sepIndex \<and> splitext_loop p (nat (sepIndex + 1)) (nat dotIndex)
         then (take (nat dotIndex) p, drop (nat dotIndex) p)
         else (p, []))"

text \<open>\<^verbatim>\<open>os.path.basename(p)\<close>: \<^verbatim>\<open>p[p.rfind('/') + 1:]\<close>.\<close>

definition basename :: "path \<Rightarrow> str" where
  "basename p = drop (nat (rfind sep p + 1)) p"

text \<open>
  \<^verbatim>\<open>entry.path\<close>: the path given to \<^verbatim>\<open>os.scandir\<close> joined with the entry's name,
  a separator added unless the path is empty or ends with one.
\<close>

definition entry_path :: "path \<Rightarrow> str \<Rightarrow> path" where
  "entry_path folder_path nm =
     (if folder_path \<noteq> [] \<and> last folder_path \<noteq> sep
      then folder_path @ [sep] @ nm
      else folder_path @ nm)"

text \<open>\<^verbatim>\<open>sub in s\<close> for strings.\<close>

fun str_in :: "str \<Rightarrow> str \<Rightarrow> bool" where
  "str_in sub [] = (sub = [])"
| "str_in sub (c # cs) = (take (length sub) (c # cs) = sub \<or> str_in sub cs)"

text \<open>
  \<^verbatim>\<open>datetime + timedelta\<close>: \<^verbatim>\<open>OverflowError\<close> when the sum leaves
  \<^verbatim>\<open>datetime.min .. datetime.max\<close>. (For a positive number of minutes too large for
  a \<^verbatim>\<open>timedelta\<close> the constructor raises the same exception, and the sum is out
  of range as well.)
\<close>

definition datetime_add :: "datetime \<Rightarrow> int \<Rightarrow> exception + datetime" where
  "datetime_add d delta =
     (if 0 \<le> d + delta \<and> d + delta \<le> MAX_DATETIME then Inr (d + delta)
      else Inl OverflowError)"

text \<open>
  \<^verbatim>\<open>subprocess.run(argv, check=True)\<close>: \<^verbatim>\<open>FileNotFoundError\<close> when the executable
  does not exist, \<^verbatim>\<open>PermissionError\<close> when it may not be executed,
  \<^verbatim>\<open>CalledProcessError\<close> when its return code is not zero.
\<close>

definition subprocess_run :: "env \<Rightarrow> cmd \<Rightarrow> exception + unit" where
  "subprocess_run E c =
     (case spawn E c of
        NoSuchCommand \<Rightarrow> Inl FileNotFoundError
      | NotExecutable \<Rightarrow> Inl PermissionError
      | Exit rc \<Rightarrow> if rc \<noteq> 0 then Inl (CalledProcessError c rc) else Inr ())"

text \<open>
  The bytes of a file name: \<^verbatim>\<open>os.fsencode\<close>, UTF-8 with the \<^verbatim>\<open>surrogateescape\<close>
  handler. A byte of a name on disk that is not valid UTF-8 is read as one of the code
  points U+DC80 to U+DCFF and written back as that byte; every other code point of a
  name is written in UTF-8.
\<close>

definition utf8 :: "nat \<Rightarrow> nat list" where
  "utf8 c =
     (if c < 0x80 then [c]
      else if c < 0x800 then [0xC0 + c div 64, 0x80 + c mod 64]
      else if c < 0x10000 then [0xE0 + c div 4096, 0x80 + c div 64 mod 64, 0x80 + c mod 64]
      else [0xF0 + c div 262144, 0x80 + c div 4096 mod 64, 0x80 + c div 64 mod 64,
            0x80 + c mod 64])"

definition escaped :: "nat \<Rightarrow> bool" where
  "escaped c = (0xDC80 \<le> c \<and> c \<le> 0xDCFF)"

definition fsencode_char :: "nat \<Rightarrow> nat list" where
  "fsencode_char c = (if escaped c then [c - 0xDC00] else utf8 c)"

definition fsencode :: "str \<Rightarrow> nat list" where
  "fsencode s = concat (map fsencode_char s)"

text \<open>A string in which no byte was escaped: the name it stands for is valid UTF-8.\<close>

definition unescaped :: "str \<Rightarrow> bool" where
  "unescaped s = list_all (\<lambda>c. \<not> escaped c) s"

section \<open>update_image_dates\<close>

definition IMAGE_EXTENSIONS :: "str set" where
  "IMAGE_EXTENSIONS =
     {ascii ''.jpg'', ascii ''.jpeg'', ascii ''.png'', ascii ''.tiff'', ascii ''.tif'',
      ascii ''.heic'', ascii ''.nef'', ascii ''.cr2'', ascii ''.arw''}"

text \<open>The condition of line 44.\<close>

definition is_image :: "env \<Rightarrow> str set \<Rightarrow> DirEntry \<Rightarrow> bool" where
  "is_image E valid_extensions entry =
     (is_file entry \<and> lower E (snd (splitext (name entry))) \<in> valid_extensions)"

text \<open>The loop of lines 43 to 45 over the entries, appending to \<^verbatim>\<open>image_files\<close>.\<close>

fun collect :: "env \<Rightarrow> str set \<Rightarrow> path \<Rightarrow> DirEntry list \<Rightarrow> path list \<Rightarrow> path list" where
  "collect E valid_extensions folder_path [] image_files = image_files"
| "collect E valid_extensions folder_path (entry # entries) image_files =
     collect E valid_extensions folder_path entries
       (if is_image E valid_extensions entry
        then image_files @ [entry_path folder_path (name entry)]
        else image_files)"

text \<open>Line 36: the extension set in force.\<close>

definition valid_extensions_of :: "str set option \<Rightarrow> str set" where
  "valid_extensions_of extensions =
     (case extensions of None \<Rightarrow> IMAGE_EXTENSIONS | Some s \<Rightarrow> s)"

text \<open>The entries a scan of the folder yields: none when the scan raises.\<close>

definition listing :: "env \<Rightarrow> path \<Rightarrow> DirEntry list" where
  "listing E folder_path =
     (case scandir E folder_path of Inl e \<Rightarrow> [] | Inr entries \<Rightarrow> entries)"

text \<open>
  Lines 39 to 47: \<^verbatim>\<open>image_files\<close> after the scan and \<^verbatim>\<open>image_files.sort()\<close>.
\<close>

definition image_files_of :: "env \<Rightarrow> path \<Rightarrow> str set option \<Rightarrow> path list" where
  "image_files_of E folder_path extensions =
     sort (collect E (valid_extensions_of extensions) folder_path (listing E folder_path) [])"

text \<open>
  Lines 54 to 61, with the format the code passes to the parser: \<open>None\<close> is the caught
  \<^verbatim>\<open>ValueError\<close>.
\<close>

definition resolve_start_date :: "env \<Rightarrow> start_date \<Rightarrow> datetime option" where
  "resolve_start_date E sd =
     (case sd of
        NoDate \<Rightarrow> Some (now E)
      | DateStr s \<Rightarrow> strptime E s (ascii ''%Y-%m-%d %H:%M:%S'')
      | DateTime d \<Rightarrow> Some d)"

text \<open>
  \<^verbatim>\<open>"SetFile" in str(e)\<close> for a \<^verbatim>\<open>CalledProcessError\<close>: its text quotes the argument
  list, so the test holds for every \<^verbatim>\<open>SetFile\<close> command, and for a \<^verbatim>\<open>touch\<close>
  command when the file's path contains the word (the date argument is digits and a
  dot).
\<close>

fun mentions_SetFile :: "cmd \<Rightarrow> bool" where
  "mentions_SetFile (SetFile d p) = True"
| "mentions_SetFile (Touch d p) = str_in (ascii ''SetFile'') p"

text \<open>
  The \<^verbatim>\<open>except subprocess.CalledProcessError\<close> clause of lines 89 to 95. Any other
  exception passes through it to the caller.
\<close>

fun except_clause :: "path \<Rightarrow> exception \<Rightarrow> result" where
  "except_clause file_path (CalledProcessError c rc) =
     (if mentions_SetFile c
      then \<lparr>exit_by = BreakAfterError, calls = [],
            printed = [ErrorUpdating file_path (CalledProcessError c rc),
                      NoteSetFileNotFound, NoteInstallWith]\<rparr>
      else \<lparr>exit_by = ReturnAfterError, calls = [],
            printed = [ErrorUpdating file_path (CalledProcessError c rc)]\<rparr>)"
| "except_clause file_path e = \<lparr>exit_by = Raised e, calls = [], printed = []\<rparr>"

text \<open>What happened before \<open>r\<close>: the commands run and the lines printed, in order.\<close>

definition preceded_by :: "cmd list \<Rightarrow> message list \<Rightarrow> result \<Rightarrow> result" where
  "preceded_by cs ms r = r\<lparr>calls := cs @ calls r, printed := ms @ printed r\<rparr>"

text \<open>
  The loop of lines 71 to 95 over the files still to do, \<open>i\<close> the counter of
  \<^verbatim>\<open>enumerate(image_files, 1)\<close>.
\<close>

fun process_files :: "env \<Rightarrow> int \<Rightarrow> nat \<Rightarrow> nat \<Rightarrow> path list \<Rightarrow> datetime \<Rightarrow> result" where
  "process_files E increment_minutes total_files i [] current_date =
     \<lparr>exit_by = LoopFinished, calls = [], printed = []\<rparr>"
| "process_files E increment_minutes total_files i (file_path # rest) current_date =
     (let touch = Touch current_date file_path;
          setfile = SetFile current_date file_path
      in case subprocess_run E touch of
           Inl e \<Rightarrow> preceded_by [touch] [] (except_clause file_path e)
         | Inr _ \<Rightarrow>
             (case subprocess_run E setfile of
                Inl e \<Rightarrow> preceded_by [touch, setfile] [] (except_clause file_path e)
              | Inr _ \<Rightarrow>
                  (let progress = Updated i total_files (basename file_path) current_date
                   in case datetime_add current_date (timedelta_minutes increment_minutes) of
                        Inl e \<Rightarrow>
                          preceded_by [touch, setfile] [progress] (except_clause file_path e)
                      | Inr next_date \<Rightarrow>
                          preceded_by [touch, setfile] [progress]
                            (process_files E increment_minutes total_files (Suc i) rest
                               next_date))))"

definition update_image_dates ::
  "env \<Rightarrow> path \<Rightarrow> start_date \<Rightarrow> int \<Rightarrow> str set option \<Rightarrow> result" where
  "update_image_dates E folder_path sd increment_minutes extensions =
     (if \<not> isdir E folder_path
      then \<lparr>exit_by = ReturnNotDirectory, calls = [],
            printed = [NotAValidDirectory folder_path]\<rparr>
      else if increment_minutes \<le> 0
      then \<lparr>exit_by = ReturnBadIncrement, calls = [], printed = [IncrementMustBePositive]\<rparr>
      else case scandir E folder_path of
        Inl e \<Rightarrow> \<lparr>exit_by = Raised e, calls = [], printed = []\<rparr>
      | Inr entries \<Rightarrow>
          (let image_files =
                 sort (collect E (valid_extensions_of extensions) folder_path entries [])
           in if image_files = []
              then \<lparr>exit_by = ReturnNoFiles, calls = [], printed = [NoImageFilesFound]\<rparr>
              else (case resolve_start_date E sd of
                      None \<Rightarrow>
                        \<lparr>exit_by = ReturnBadDate, calls = [], printed = [InvalidDateFormat]\<rparr>
                    | Some start \<Rightarrow>
                        preceded_by []
                          [FoundImageFiles (length image_files), StartingDate start,
                           IncrementMinutes increment_minutes]
                          (process_files E increment_minutes (length image_files) 1
                             image_files start))))"

section \<open>Observations and an example world\<close>

text \<open>The two commands the loop body runs for one file, in the order it runs them.\<close>

definition commands_for :: "datetime \<Rightarrow> path \<Rightarrow> cmd list" where
  "commands_for d p = [Touch d p, SetFile d p]"

text \<open>The files the \<^verbatim>\<open>touch\<close> commands of a run were given, in the order of the calls.\<close>

fun touched :: "cmd list \<Rightarrow> path list" where
  "touched [] = []"
| "touched (Touch d p # cs) = p # touched cs"
| "touched (SetFile d p # cs) = touched cs"

text \<open>
  A folder \<^verbatim>\<open>/photos\<close> on a machine where every command succeeds, the clock and the
  one start date the parser accepts both 2024-01-01 00:00:00 (day 738886 of the
  calendar). Its Unicode lowering knows two letters beyond ASCII: U+00C9 (E with
  acute) becomes U+00E9, and U+212A (the Kelvin sign) becomes \<^verbatim>\<open>k\<close>.
  \<open>spec_entries\<close> is the folder of the specification's end-to-end example;
  \<open>mixed_entries\<close> adds a text file, a file without extension, a directory, a file
  named \<^verbatim>\<open>.jpg\<close>, an upper-case name and two numbered names; \<open>raw_entries\<close> holds a
  name that starts with U+00E9 and a name whose first byte on disk, 0x80, is not
  valid UTF-8.
\<close>

definition example_lower_char :: "nat \<Rightarrow> nat" where
  "example_lower_char c = (if c = 201 then 233 else if c = 8490 then 107 else ascii_lower c)"

definition spec_entries :: "DirEntry list" where
  "spec_entries =
     [\<lparr>name = ascii ''b.jpg'', is_file = True\<rparr>, \<lparr>name = ascii ''a.jpg'', is_file = True\<rparr>,
      \<lparr>name = ascii ''c.png'', is_file = True\<rparr>]"

definition mixed_entries :: "DirEntry list" where
  "mixed_entries =
     [\<lparr>name = ascii ''img9.jpg'', is_file = True\<rparr>, \<lparr>name = ascii ''a.jpg'', is_file = True\<rparr>,
      \<lparr>name = ascii ''notes.txt'', is_file = True\<rparr>, \<lparr>name = ascii ''README'', is_file = True\<rparr>,
      \<lparr>name = ascii ''sub.jpg'', is_file = False\<rparr>, \<lparr>name = ascii ''.jpg'', is_file = True\<rparr>,
      \<lparr>name = ascii ''B.JPG'', is_file = True\<rparr>, \<lparr>name = ascii ''img10.jpg'', is_file = True\<rparr>]"

definition raw_entries :: "DirEntry list" where
  "raw_entries =
     [\<lparr>name = 0xDC80 # ascii ''.jpg'', is_file = True\<rparr>,
      \<lparr>name = 0xE9 # ascii ''.jpg'', is_file = True\<rparr>]"

definition example_env :: "DirEntry list \<Rightarrow> env" where
  "example_env entries =
     \<lparr>isdir = (\<lambda>p. p = ascii ''/photos''),
      scandir = (\<lambda>p. if p = ascii ''/photos'' then Inr entries else Inl FileNotFoundError),
      now = 63839664000000000,
      strptime = (\<lambda>s f. if f = ascii ''%Y-%m-%d %H:%M:%S'' \<and> s = ascii ''2024-01-01 00:00:00''
                          then Some 63839664000000000 else None),
      unicode_lower = map example_lower_char,
      spawn = (\<lambda>c. Exit 0)\<rparr>"

text \<open>A machine without the \<^verbatim>\<open>SetFile\<close> utility: \<^verbatim>\<open>touch\<close> works, \<^verbatim>\<open>SetFile\<close> cannot be started.\<close>

fun without_SetFile :: "cmd \<Rightarrow> proc_outcome" where
  "without_SetFile (Touch d p) = Exit 0"
| "without_SetFile (SetFile d p) = NoSuchCommand"

section \<open>Facts about the library functions\<close>

declare splitext_loop.simps [simp del]

lemma ascii_simps: "ascii [] = []" "ascii (c # cs) = of_char c # ascii cs"
  by (simp_all add: ascii_def)

lemma isascii_map_ascii_lower: "isascii s \<Longrightarrow> isascii (map ascii_lower s)"
  by (induction s) (auto simp: isascii_def ascii_lower_def)

lemma ascii_lower_idem: "ascii_lower (ascii_lower c) = ascii_lower c"
  by (simp add: ascii_lower_def)

lemma lower_Nil [simp]: "lower E [] = []"
  by (simp add: lower_def isascii_def)

text \<open>On ASCII strings lowering twice is lowering once, whatever the world's tables say.\<close>

lemma lower_idem_ascii: "isascii s \<Longrightarrow> lower E (lower E s) = lower E s"
  by (simp add: lower_def isascii_map_ascii_lower ascii_lower_idem)

lemma rfind_ge: "- 1 \<le> rfind c s"
proof (cases "c \<in> set s")
  case True
  have "length (takeWhile (\<lambda>x. x \<noteq> c) (rev s)) \<le> length (rev s)"
    by (rule length_takeWhile_le)
  then show ?thesis using True by (simp add: rfind_def)
next
  case False
  then show ?thesis by (simp add: rfind_def)
qed

lemma rfind_leading:
  assumes "c \<notin> set s"
  shows "rfind c (c # s) = 0"
proof -
  have "takeWhile (\<lambda>x. x \<noteq> c) (rev s @ [c]) = rev s"
    using assms by (subst takeWhile_append2) auto
  then show ?thesis by (simp add: rfind_def)
qed

lemma splitext_leading_dot:
  assumes "extsep \<notin> set s"
  shows "splitext (extsep # s) = (extsep # s, [])"
proof -
  have "rfind extsep (extsep # s) = 0"
    using assms by (rule rfind_leading)
  moreover have "\<not> splitext_loop (extsep # s) k 0" for k
    by (simp add: splitext_loop.simps)
  ultimately show ?thesis
    by (simp add: splitext_def Let_def)
qed

lemma splitext_no_dot:
  assumes "extsep \<notin> set s"
  shows "splitext s = (s, [])"
  using assms rfind_ge [of sep s] by (simp add: splitext_def Let_def rfind_def)

subsection \<open>UTF-8 keeps the order of code points\<close>

lemma div_mod_less:
  assumes "(c::nat) < d"
  shows "c div k < d div k \<or> (c div k = d div k \<and> c mod k < d mod k)"
proof -
  have le: "c div k \<le> d div k"
    using assms by (simp add: div_le_mono)
  have "c mod k < d mod k" if "c div k = d div k"
  proof -
    have "c div k * k + c mod k < d div k * k + d mod k"
      using assms by (simp only: div_mult_mod_eq)
    then have "d div k * k + c mod k < d div k * k + d mod k"
      by (simp only: that)
    then show ?thesis by linarith
  qed
  then show ?thesis using le by linarith
qed

lemma three_digits_less:
  assumes "(c::nat) < d"
  shows "c div 4096 < d div 4096 \<or>
         (c div 4096 = d div 4096 \<and>
          (c div 64 mod 64 < d div 64 mod 64 \<or>
           (c div 64 mod 64 = d div 64 mod 64 \<and> c mod 64 < d mod 64)))"
proof -
  have e: "x div 4096 = x div 64 div 64" for x :: nat
    by (simp add: div_mult2_eq)
  show ?thesis
    using div_mod_less [OF assms, of 64] div_mod_less [of "c div 64" "d div 64" 64]
    unfolding e by auto
qed

lemma four_digits_less:
  assumes "(c::nat) < d"
  shows "c div 262144 < d div 262144 \<or>
         (c div 262144 = d div 262144 \<and>
          (c div 4096 mod 64 < d div 4096 mod 64 \<or>
           (c div 4096 mod 64 = d div 4096 mod 64 \<and>
            (c div 64 mod 64 < d div 64 mod 64 \<or>
             (c div 64 mod 64 = d div 64 mod 64 \<and> c mod 64 < d mod 64)))))"
proof -
  have e: "x div 262144 = x div 4096 div 64" for x :: nat
    by (simp add: div_mult2_eq)
  show ?thesis
    using three_digits_less [OF assms] div_mod_less [of "c div 4096" "d div 4096" 64]
    unfolding e by auto
qed

lemma lead_two: "x < 2048 \<Longrightarrow> x div 64 < (32::nat)"
  by (simp add: div_less_iff_less_mult)

lemma lead_three: "x < 65536 \<Longrightarrow> x div 4096 < (16::nat)"
  by (simp add: div_less_iff_less_mult)

text \<open>
  The encodings of two code points differ first at a byte that is smaller for the
  smaller code point, so whatever follows does not matter.
\<close>

lemma utf8_less:
  assumes "c < d"
  shows "utf8 c @ r < utf8 d @ r'"
proof -
  consider (one) "d < 128" | (two) "128 \<le> d" "d < 2048" | (three) "2048 \<le> d" "d < 65536"
    | (four) "65536 \<le> d"
    by linarith
  then show ?thesis
  proof cases
    case one
    then show ?thesis using assms by (simp add: utf8_def)
  next
    case two
    show ?thesis
    proof (cases "c < 128")
      case True
      then show ?thesis using two by (simp add: utf8_def)
    next
      case False
      then show ?thesis
        using two assms div_mod_less [OF assms, of 64] by (auto simp: utf8_def)
    qed
  next
    case three
    show ?thesis
    proof (cases "c < 2048")
      case True
      then show ?thesis using three lead_two [OF True] by (simp add: utf8_def)
    next
      case False
      then show ?thesis using three assms three_digits_less [OF assms] by (auto simp: utf8_def)
    qed
  next
    case four
    show ?thesis
    proof (cases "c < 65536")
      case True
      have "c div 64 < 32" if "c < 2048"
        using that by (rule lead_two)
      then show ?thesis using four True lead_three [OF True] by (auto simp: utf8_def)
    next
      case False
      then show ?thesis using four assms four_digits_less [OF assms] by (auto simp: utf8_def)
    qed
  qed
qed

lemma utf8_not_Nil [simp]: "utf8 c \<noteq> []"
  by (simp add: utf8_def)

lemma append_less_append: "(p @ a < p @ b) = (a < (b :: nat list))"
  by (induction p) simp_all

lemma Nil_less_iff: "([] < (b :: nat list)) = (b \<noteq> [])"
  by (cases b) simp_all

lemma fsencode_mono:
  assumes "unescaped xs" and "unescaped ys" and "xs < ys"
  shows "fsencode xs < fsencode ys"
  using assms
proof (induction xs arbitrary: ys)
  case Nil
  then obtain b bs where "ys = b # bs" by (cases ys) auto
  with Nil show ?case
    by (simp add: fsencode_def fsencode_char_def unescaped_def Nil_less_iff)
next
  case (Cons a as)
  from Cons.prems(3) obtain b bs where ys: "ys = b # bs" by (cases ys) auto
  from Cons.prems ys have a: "fsencode_char a = utf8 a" and b: "fsencode_char b = utf8 b"
    by (auto simp: fsencode_char_def unescaped_def)
  from Cons.prems(3) ys consider (lt) "a < b" | (eq) "a = b" "as < bs"
    by auto
  then show ?case
  proof cases
    case lt
    then show ?thesis
      using utf8_less [OF lt] by (simp add: fsencode_def ys a b)
  next
    case eq
    have "fsencode as < fsencode bs"
      using Cons.IH [of bs] Cons.prems(1,2) eq(2) ys by (simp add: unescaped_def)
    then show ?thesis
      using eq(1) by (simp add: fsencode_def ys a append_less_append)
  qed
qed

lemma fsencode_mono_le:
  assumes "unescaped xs" and "unescaped ys" and "xs \<le> ys"
  shows "fsencode xs \<le> fsencode ys"
  using assms fsencode_mono [of xs ys] by (auto simp: order_le_less)

section \<open>Facts about the scan and the loop\<close>

lemma collect_append:
  "collect E exts folder es acc =
   acc @ map (\<lambda>e. entry_path folder (name e)) (filter (is_image E exts) es)"
  by (induction es arbitrary: acc) auto

lemma listing_Inr [simp]: "scandir E folder = Inr entries \<Longrightarrow> listing E folder = entries"
  by (simp add: listing_def)

lemma listing_Inl [simp]: "scandir E folder = Inl e \<Longrightarrow> listing E folder = []"
  by (simp add: listing_def)

lemma image_files_of_Inl [simp]:
  "scandir E folder = Inl e \<Longrightarrow> image_files_of E folder exts = []"
  by (simp add: image_files_of_def)

lemma image_files_of_Inr:
  "scandir E folder = Inr entries \<Longrightarrow>
   sort (collect E (valid_extensions_of exts) folder entries []) = image_files_of E folder exts"
  by (simp add: image_files_of_def)

text \<open>The function in terms of the list the loop walks, for a folder that can be scanned.\<close>

lemma update_image_dates_scanned:
  assumes "scandir E folder = Inr entries"
  shows "update_image_dates E folder sd inc exts =
     (if \<not> isdir E folder
      then \<lparr>exit_by = ReturnNotDirectory, calls = [], printed = [NotAValidDirectory folder]\<rparr>
      else if inc \<le> 0
      then \<lparr>exit_by = ReturnBadIncrement, calls = [], printed = [IncrementMustBePositive]\<rparr>
      else if image_files_of E folder exts = []
      then \<lparr>exit_by = ReturnNoFiles, calls = [], printed = [NoImageFilesFound]\<rparr>
      else (case resolve_start_date E sd of
              None \<Rightarrow> \<lparr>exit_by = ReturnBadDate, calls = [], printed = [InvalidDateFormat]\<rparr>
            | Some start \<Rightarrow>
                preceded_by []
                  [FoundImageFiles (length (image_files_of E folder exts)), StartingDate start,
                   IncrementMinutes inc]
                  (process_files E inc (length (image_files_of E folder exts)) 1
                     (image_files_of E folder exts) start)))"
  by (simp add: update_image_dates_def Let_def assms image_files_of_Inr [OF assms])

lemma update_image_dates_unscanned:
  assumes "scandir E folder = Inl e"
  shows "update_image_dates E folder sd inc exts =
     (if \<not> isdir E folder
      then \<lparr>exit_by = ReturnNotDirectory, calls = [], printed = [NotAValidDirectory folder]\<rparr>
      else if inc \<le> 0
      then \<lparr>exit_by = ReturnBadIncrement, calls = [], printed = [IncrementMustBePositive]\<rparr>
      else \<lparr>exit_by = Raised e, calls = [], printed = []\<rparr>)"
  by (simp add: update_image_dates_def assms)

lemma preceded_by_simps [simp]:
  "exit_by (preceded_by cs ms r) = exit_by r"
  "calls (preceded_by cs ms r) = cs @ calls r"
  "printed (preceded_by cs ms r) = ms @ printed r"
  by (simp_all add: preceded_by_def)

lemma except_clause_calls [simp]: "calls (except_clause p e) = []"
  by (cases e) auto

lemma except_clause_not_finished [simp]: "exit_by (except_clause p e) \<noteq> LoopFinished"
  by (cases e) auto

lemma datetime_add_Inr: "datetime_add d delta = Inr d' \<Longrightarrow> d' = d + delta"
  by (auto simp: datetime_add_def split: if_splits)

text \<open>
  A loop that runs to its end has run, for the file at position \<open>k\<close>, the two commands
  with the date \<open>k\<close> increments after the date it started from.
\<close>

lemma process_files_finished_calls:
  "exit_by (process_files E inc n i fs d) = LoopFinished \<Longrightarrow>
   calls (process_files E inc n i fs d) =
   concat (map (\<lambda>k. commands_for (d + int k * timedelta_minutes inc) (fs ! k)) [0..<length fs])"
proof (induction fs arbitrary: i d)
  case Nil
  then show ?case by simp
next
  case (Cons f fs)
  from Cons.prems obtain d' where
    add: "datetime_add d (timedelta_minutes inc) = Inr d'" and
    t: "subprocess_run E (Touch d f) = Inr ()" and
    s: "subprocess_run E (SetFile d f) = Inr ()" and
    fin: "exit_by (process_files E inc n (Suc i) fs d') = LoopFinished"
    by (auto simp: Let_def split: sum.splits)
  have d': "d' = d + timedelta_minutes inc"
    using add by (rule datetime_add_Inr)
  have shift: "[0..<length (f # fs)] = 0 # map Suc [0..<length fs]"
    by (simp add: upt_conv_Cons map_Suc_upt del: upt_Suc)
  have step: "d' + int k * timedelta_minutes inc = d + int (Suc k) * timedelta_minutes inc" for k
    by (simp add: d' algebra_simps)
  show ?case
    using Cons.IH [OF fin] add t s
    by (simp only: shift) (simp add: commands_for_def step o_def)
qed

text \<open>Whatever happens, the files touched are an initial part of the list the loop was given.\<close>

lemma process_files_touched:
  "\<exists>k. touched (calls (process_files E inc n i fs d)) = take k fs"
proof (induction fs arbitrary: i d)
  case Nil
  then show ?case by simp
next
  case (Cons f fs)
  show ?case
  proof (cases "\<exists>d'. subprocess_run E (Touch d f) = Inr () \<and>
      subprocess_run E (SetFile d f) = Inr () \<and>
      datetime_add d (timedelta_minutes inc) = Inr d'")
    case True
    then obtain d' where
      add: "datetime_add d (timedelta_minutes inc) = Inr d'" and
      t: "subprocess_run E (Touch d f) = Inr ()" and
      s: "subprocess_run E (SetFile d f) = Inr ()"
      by auto
    from Cons.IH [of "Suc i" d'] obtain k where
      "touched (calls (process_files E inc n (Suc i) fs d')) = take k fs" ..
    then have "touched (calls (process_files E inc n i (f # fs) d)) = take (Suc k) (f # fs)"
      using add t s by simp
    then show ?thesis ..
  next
    case False
    then have "touched (calls (process_files E inc n i (f # fs) d)) = take 1 (f # fs)"
      by (auto simp: Let_def split: sum.splits)
    then show ?thesis ..
  qed
qed

lemma process_files_first_call:
  "\<exists>rest. calls (process_files E inc n i (f # fs) d) = Touch d f # rest"
  by (auto simp: Let_def split: sum.splits)

lemma image_files_of_set:
  "set (image_files_of E folder exts) =
   (\<lambda>e. entry_path folder (name e)) `
     {e \<in> set (listing E folder). is_image E (valid_extensions_of exts) e}"
  by (auto simp: image_files_of_def collect_append)

lemma entry_path_inj [simp]: "entry_path folder a = entry_path folder b \<longleftrightarrow> a = b"
  by (simp add: entry_path_def)

lemma in_image_files_iff:
  "entry_path folder nm \<in> set (image_files_of E folder exts) \<longleftrightarrow>
   (\<exists>e \<in> set (listing E folder). name e = nm \<and> is_image E (valid_extensions_of exts) e)"
  by (auto simp: image_files_of_set)

text \<open>
  All paths of one scan start with the same folder, so comparing two of them comes
  down to comparing the names.
\<close>

lemma entry_path_less: "entry_path folder a < entry_path folder b \<longleftrightarrow> a < b"
  by (simp add: entry_path_def append_less_append)

text \<open>The order on strings, spelled out: lexicographic on the code points.\<close>

lemma str_le_lexord:
  "(a \<le> (b::str)) = (a = b \<or> (a, b) \<in> lexord {(c, d). c < d})"
  by (auto simp: list_le_def list_less_def)

lemma update_image_dates_touched:
  "\<exists>k. touched (calls (update_image_dates E folder sd inc exts)) =
        take k (image_files_of E folder exts)"
proof (cases "scandir E folder")
  case (Inl e)
  then have "touched (calls (update_image_dates E folder sd inc exts)) =
      take 0 (image_files_of E folder exts)"
    by (simp add: update_image_dates_unscanned)
  then show ?thesis ..
next
  case (Inr entries)
  show ?thesis
  proof (cases "isdir E folder \<and> 0 < inc \<and> image_files_of E folder exts \<noteq> [] \<and>
      resolve_start_date E sd \<noteq> None")
    case True
    then obtain start where "resolve_start_date E sd = Some start" by auto
    with True show ?thesis
      using process_files_touched [of E inc "length (image_files_of E folder exts)" 1
          "image_files_of E folder exts" start]
      by (simp add: update_image_dates_scanned [OF Inr])
  next
    case False
    then have "touched (calls (update_image_dates E folder sd inc exts)) =
        take 0 (image_files_of E folder exts)"
      by (auto simp: update_image_dates_scanned [OF Inr] split: option.splits)
    then show ?thesis ..
  qed
qed

text \<open>A run that finishes the loop has passed both checks, scanned the folder and found files.\<close>

lemma finished_run:
  assumes "exit_by (update_image_dates E folder sd inc exts) = LoopFinished"
  obtains entries start where
    "isdir E folder" and "0 < inc" and "scandir E folder = Inr entries" and
    "image_files_of E folder exts \<noteq> []" and "resolve_start_date E sd = Some start"
proof (cases "scandir E folder")
  case (Inl e)
  then show ?thesis
    using assms by (simp add: update_image_dates_unscanned split: if_splits)
next
  case (Inr entries)
  then show ?thesis
    using assms that
    by (auto simp: update_image_dates_scanned [OF Inr] split: if_splits option.splits)
qed

text \<open>The example world's lowering: letter by letter, and the same twice as once.\<close>

lemma example_lower:
  "lower (example_env entries) s = map example_lower_char s"
proof (cases "isascii s")
  case True
  then have "map ascii_lower s = map example_lower_char s"
    by (induction s) (auto simp: isascii_def example_lower_char_def)
  then show ?thesis using True by (simp add: lower_def)
next
  case False
  then show ?thesis by (simp add: lower_def example_env_def)
qed

lemma example_lower_idem:
  "lower (example_env entries) (lower (example_env entries) x) = lower (example_env entries) x"
  by (simp add: example_lower example_lower_char_def ascii_lower_def)

section \<open>The assignment of timestamps\<close>

text \<open>
  C1. A run that completes has given the file at sorted position \<open>i\<close> (from 0) the
  timestamp \<open>start + i * increment_minutes\<close>, in both of its commands, and nothing else
  was run; the increment is positive, so consecutive timestamps differ by exactly
  that many minutes and the assignment is strictly increasing.
\<close>

theorem assignment_evenly_spaced:
  assumes "exit_by (update_image_dates E folder sd inc exts) = LoopFinished"
  shows "\<exists>start. resolve_start_date E sd = Some start \<and>
           calls (update_image_dates E folder sd inc exts) =
             concat (map (\<lambda>i. commands_for (start + int i * timedelta_minutes inc)
                                (image_files_of E folder exts ! i))
                       [0..<length (image_files_of E folder exts)]) \<and>
           0 < timedelta_minutes inc"
proof -
  from assms obtain entries start where
    dir: "isdir E folder" and pos: "0 < inc" and scan: "scandir E folder = Inr entries" and
    ne: "image_files_of E folder exts \<noteq> []" and start: "resolve_start_date E sd = Some start"
    by (rule finished_run)
  let ?fs = "image_files_of E folder exts"
  have run: "update_image_dates E folder sd inc exts =
      preceded_by [] [FoundImageFiles (length ?fs), StartingDate start, IncrementMinutes inc]
        (process_files E inc (length ?fs) 1 ?fs start)"
    using dir pos start ne by (simp add: update_image_dates_scanned [OF scan])
  then have "exit_by (process_files E inc (length ?fs) 1 ?fs start) = LoopFinished"
    using assms by simp
  then have "calls (process_files E inc (length ?fs) 1 ?fs start) =
      concat (map (\<lambda>i. commands_for (start + int i * timedelta_minutes inc) (?fs ! i))
                [0..<length ?fs])"
    by (rule process_files_finished_calls)
  then show ?thesis
    using start pos run by (simp add: timedelta_minutes_def)
qed

text \<open>
  The specification's end-to-end example: \<^verbatim>\<open>a.jpg\<close> gets 00:00, \<^verbatim>\<open>b.jpg\<close> 01:00 and
  \<^verbatim>\<open>c.png\<close> 02:00 of 2024-01-01.
\<close>

theorem assignment_evenly_spaced_witness:
  "exit_by (update_image_dates (example_env spec_entries) (ascii ''/photos'')
      (DateStr (ascii ''2024-01-01 00:00:00'')) 60 None) = LoopFinished \<and>
   calls (update_image_dates (example_env spec_entries) (ascii ''/photos'')
      (DateStr (ascii ''2024-01-01 00:00:00'')) 60 None) =
     [Touch 63839664000000000 (ascii ''/photos/a.jpg''),
      SetFile 63839664000000000 (ascii ''/photos/a.jpg''),
      Touch 63839667600000000 (ascii ''/photos/b.jpg''),
      SetFile 63839667600000000 (ascii ''/photos/b.jpg''),
      Touch 63839671200000000 (ascii ''/photos/c.png''),
      SetFile 63839671200000000 (ascii ''/photos/c.png'')]"
proof -
  have fin: "exit_by (update_image_dates (example_env spec_entries) (ascii ''/photos'')
      (DateStr (ascii ''2024-01-01 00:00:00'')) 60 None) = LoopFinished"
    by code_simp
  have files: "image_files_of (example_env spec_entries) (ascii ''/photos'') None =
      [ascii ''/photos/a.jpg'', ascii ''/photos/b.jpg'', ascii ''/photos/c.png'']"
    by code_simp
  have start: "resolve_start_date (example_env spec_entries)
      (DateStr (ascii ''2024-01-01 00:00:00'')) = Some 63839664000000000"
    by code_simp
  from assignment_evenly_spaced [OF fin] show ?thesis
    using fin by (simp add: files start commands_for_def timedelta_minutes_def upt_rec)
qed

section \<open>Fail-fast on a bad configuration\<close>

text \<open>
  C6. When the folder is not an existing directory, or the increment is zero or
  negative, the run prints the matching error, returns at once and has run no
  command: no file is touched.
\<close>

theorem bad_config_fails_fast:
  assumes "\<not> isdir E folder \<or> inc \<le> 0"
  shows "calls (update_image_dates E folder sd inc exts) = [] \<and>
         printed (update_image_dates E folder sd inc exts) =
           [if \<not> isdir E folder then NotAValidDirectory folder else IncrementMustBePositive] \<and>
         exit_by (update_image_dates E folder sd inc exts) =
           (if \<not> isdir E folder then ReturnNotDirectory else ReturnBadIncrement)"
  using assms by (auto simp: update_image_dates_def)

theorem bad_config_fails_fast_witness:
  "(0::int) \<le> 0 \<and>
   calls (update_image_dates (example_env spec_entries) (ascii ''/photos'') NoDate 0 None) = [] \<and>
   printed (update_image_dates (example_env spec_entries) (ascii ''/photos'') NoDate 0 None) =
     [IncrementMustBePositive] \<and>
   calls (update_image_dates (example_env spec_entries) (ascii ''/nowhere'') NoDate 60 None) = [] \<and>
   printed (update_image_dates (example_env spec_entries) (ascii ''/nowhere'') NoDate 60 None) =
     [NotAValidDirectory (ascii ''/nowhere'')]"
proof -
  have dir: "isdir (example_env spec_entries) (ascii ''/photos'')"
    and nodir: "\<not> isdir (example_env spec_entries) (ascii ''/nowhere'')"
    by code_simp+
  show ?thesis
    using bad_config_fails_fast [of "example_env spec_entries" "ascii ''/photos''" 0 NoDate None]
      bad_config_fails_fast [of "example_env spec_entries" "ascii ''/nowhere''" 60 NoDate None]
      dir nodir
    by simp
qed

section \<open>The extension filter\<close>

text \<open>
  C5. In a folder (no two entries of a directory share a name), an entry is among the
  files processed exactly when it is a regular file and its extension, lower-cased,
  is in the extension set in force; in particular a file whose extension is not
  listed is left out whatever its case, and so is a file with no extension (the
  empty string is no entry of a set of dotted extensions). The set in force is the
  caller's, or the nine built-in extensions when the caller gives none.
\<close>

theorem filter_correctness:
  assumes "distinct (map name (listing E folder))" and "e \<in> set (listing E folder)"
  shows "(entry_path folder (name e) \<in> set (image_files_of E folder exts) \<longleftrightarrow>
            is_file e \<and> lower E (snd (splitext (name e))) \<in> valid_extensions_of exts) \<and>
         (snd (splitext (name e)) = [] \<and> [] \<notin> valid_extensions_of exts \<longrightarrow>
            entry_path folder (name e) \<notin> set (image_files_of E folder exts)) \<and>
         valid_extensions_of None =
           {ascii ''.jpg'', ascii ''.jpeg'', ascii ''.png'', ascii ''.tiff'', ascii ''.tif'',
            ascii ''.heic'', ascii ''.nef'', ascii ''.cr2'', ascii ''.arw''} \<and>
         valid_extensions_of (Some V) = V"
proof -
  have inj: "inj_on name (set (listing E folder))"
    using assms(1) by (simp add: distinct_map)
  have same: "e' = e" if "e' \<in> set (listing E folder)" and "name e' = name e" for e'
    using inj that assms(2) by (auto dest: inj_onD)
  have iff: "entry_path folder (name e) \<in> set (image_files_of E folder exts) \<longleftrightarrow>
      is_image E (valid_extensions_of exts) e"
    using assms(2) same by (auto simp: in_image_files_iff)
  show ?thesis
    using iff by (auto simp: is_image_def valid_extensions_of_def IMAGE_EXTENSIONS_def)
qed

text \<open>
  \<^verbatim>\<open>B.JPG\<close> is processed; \<^verbatim>\<open>notes.txt\<close>, \<^verbatim>\<open>README\<close> and the directory \<^verbatim>\<open>sub.jpg\<close>
  are not.
\<close>

theorem filter_correctness_witness:
  "entry_path (ascii ''/photos'') (ascii ''B.JPG'') \<in>
     set (image_files_of (example_env mixed_entries) (ascii ''/photos'') None) \<and>
   entry_path (ascii ''/photos'') (ascii ''notes.txt'') \<notin>
     set (image_files_of (example_env mixed_entries) (ascii ''/photos'') None) \<and>
   entry_path (ascii ''/photos'') (ascii ''README'') \<notin>
     set (image_files_of (example_env mixed_entries) (ascii ''/photos'') None) \<and>
   entry_path (ascii ''/photos'') (ascii ''sub.jpg'') \<notin>
     set (image_files_of (example_env mixed_entries) (ascii ''/photos'') None)"
proof -
  let ?E = "example_env mixed_entries"
  have l: "listing ?E (ascii ''/photos'') = mixed_entries"
    by (simp add: listing_def example_env_def)
  have d: "distinct (map name (listing ?E (ascii ''/photos'')))"
    unfolding l by code_simp
  have m: "\<lparr>name = ascii ''B.JPG'', is_file = True\<rparr> \<in> set (listing ?E (ascii ''/photos''))"
    "\<lparr>name = ascii ''notes.txt'', is_file = True\<rparr> \<in> set (listing ?E (ascii ''/photos''))"
    "\<lparr>name = ascii ''README'', is_file = True\<rparr> \<in> set (listing ?E (ascii ''/photos''))"
    "\<lparr>name = ascii ''sub.jpg'', is_file = False\<rparr> \<in> set (listing ?E (ascii ''/photos''))"
    unfolding l by (simp_all add: mixed_entries_def)
  have x: "lower ?E (snd (splitext (ascii ''B.JPG''))) \<in> valid_extensions_of None"
    "lower ?E (snd (splitext (ascii ''notes.txt''))) \<notin> valid_extensions_of None"
    "lower ?E (snd (splitext (ascii ''README''))) \<notin> valid_extensions_of None"
    by code_simp+
  show ?thesis
    using filter_correctness [OF d m(1), where exts = None]
      filter_correctness [OF d m(2), where exts = None]
      filter_correctness [OF d m(3), where exts = None]
      filter_correctness [OF d m(4), where exts = None] x
    by simp
qed

text \<open>
  C9. For a name that is one leading dot followed by characters with no further dot,
  \<^verbatim>\<open>splitext\<close> returns the whole name as the root and the empty extension, so the
  file is not an image for the built-in set nor for any set of dotted extensions, and
  it is not processed, although the name read as an extension may well be listed.
\<close>

theorem leading_dot_name_is_excluded:
  assumes "extsep \<notin> set s" and "name e = extsep # s"
  shows "splitext (name e) = (name e, []) \<and>
         \<not> is_image E IMAGE_EXTENSIONS e \<and>
         ([] \<notin> valid_extensions_of exts \<longrightarrow>
            entry_path folder (name e) \<notin> set (image_files_of E folder exts))"
proof -
  have sp: "splitext (name e) = (name e, [])"
    using assms by (simp add: splitext_leading_dot)
  then have no: "\<not> is_image E V e" if "[] \<notin> V" for V
    using that by (simp add: is_image_def)
  have "[] \<notin> IMAGE_EXTENSIONS"
    by (simp add: IMAGE_EXTENSIONS_def ascii_def)
  then have "\<not> is_image E IMAGE_EXTENSIONS e"
    by (rule no)
  moreover have "entry_path folder (name e) \<notin> set (image_files_of E folder exts)"
    if "[] \<notin> valid_extensions_of exts"
  proof
    assume "entry_path folder (name e) \<in> set (image_files_of E folder exts)"
    then obtain e' where "name e' = name e" and "is_image E (valid_extensions_of exts) e'"
      by (auto simp: in_image_files_iff)
    then show False
      using sp that by (simp add: is_image_def)
  qed
  ultimately show ?thesis
    using sp by blast
qed

theorem leading_dot_name_is_excluded_witness:
  "lower (example_env mixed_entries) (ascii ''.jpg'') \<in> IMAGE_EXTENSIONS \<and>
   \<lparr>name = ascii ''.jpg'', is_file = True\<rparr> \<in>
     set (listing (example_env mixed_entries) (ascii ''/photos'')) \<and>
   splitext (ascii ''.jpg'') = (ascii ''.jpg'', []) \<and>
   ascii ''/photos/.jpg'' \<notin>
     set (image_files_of (example_env mixed_entries) (ascii ''/photos'') None)"
proof -
  have a: "extsep \<notin> set (ascii ''jpg'')" by code_simp
  have b: "name \<lparr>name = ascii ''.jpg'', is_file = True\<rparr> = extsep # ascii ''jpg''"
    by code_simp
  have c: "[] \<notin> valid_extensions_of None"
    by (simp add: valid_extensions_of_def IMAGE_EXTENSIONS_def ascii_def)
  have d: "lower (example_env mixed_entries) (ascii ''.jpg'') \<in> IMAGE_EXTENSIONS" by code_simp
  have m: "\<lparr>name = ascii ''.jpg'', is_file = True\<rparr> \<in>
      set (listing (example_env mixed_entries) (ascii ''/photos''))"
    by code_simp
  have p: "entry_path (ascii ''/photos'') (ascii ''.jpg'') = ascii ''/photos/.jpg''"
    by code_simp
  show ?thesis
    using leading_dot_name_is_excluded [OF a b, where exts = None and folder = "ascii ''/photos''"
          and E = "example_env mixed_entries"]
      c d m p
    by simp
qed

section \<open>The order of the files\<close>

text \<open>
  Two strings are compared by their code points, not by the bytes of the names on
  disk. A name whose first byte on disk is 0x80 is read as the code point U+DC80 and
  sorts after the name that starts with U+00E9, although its bytes come before the
  bytes 0xC3 0xA9 of that letter.
\<close>

theorem byte_order_counterexample:
  "image_files_of (example_env raw_entries) (ascii ''/photos'') None =
     [ascii ''/photos/'' @ 0xE9 # ascii ''.jpg'', ascii ''/photos/'' @ 0xDC80 # ascii ''.jpg''] \<and>
   fsencode (ascii ''/photos/'' @ 0xDC80 # ascii ''.jpg'') <
     fsencode (ascii ''/photos/'' @ 0xE9 # ascii ''.jpg'') \<and>
   touched (calls (update_image_dates (example_env raw_entries) (ascii ''/photos'') NoDate 1
     None)) =
     [ascii ''/photos/'' @ 0xE9 # ascii ''.jpg'', ascii ''/photos/'' @ 0xDC80 # ascii ''.jpg'']"
proof -
  let ?E = "example_env raw_entries"
  have files: "image_files_of ?E (ascii ''/photos'') None =
     [ascii ''/photos/'' @ 0xE9 # ascii ''.jpg'', ascii ''/photos/'' @ 0xDC80 # ascii ''.jpg'']"
    by (simp add: image_files_of_def listing_def example_env_def raw_entries_def is_image_def
        splitext_def rfind_def sep_def extsep_def splitext_loop.simps
        lower_def isascii_def ascii_lower_def ascii_simps
        valid_extensions_of_def IMAGE_EXTENSIONS_def entry_path_def)
  have bytes: "fsencode (ascii ''/photos/'' @ 0xDC80 # ascii ''.jpg'') <
     fsencode (ascii ''/photos/'' @ 0xE9 # ascii ''.jpg'')"
    by (simp add: fsencode_def fsencode_char_def escaped_def utf8_def ascii_simps)
  have scan: "scandir ?E (ascii ''/photos'') = Inr raw_entries"
    and dir: "isdir ?E (ascii ''/photos'')"
    and ok: "subprocess_run ?E c = Inr ()" for c
    by (simp_all add: example_env_def subprocess_run_def)
  have add: "datetime_add (now ?E + k * timedelta_minutes 1) (timedelta_minutes 1) =
      Inr (now ?E + k * timedelta_minutes 1 + timedelta_minutes 1)" if "0 \<le> k" "k \<le> 1" for k
    using that
    by (simp add: datetime_add_def example_env_def timedelta_minutes_def MAX_DATETIME_def)
  have "touched (calls (update_image_dates ?E (ascii ''/photos'') NoDate 1 None)) =
     [ascii ''/photos/'' @ 0xE9 # ascii ''.jpg'', ascii ''/photos/'' @ 0xDC80 # ascii ''.jpg'']"
    using add [of 0] add [of 1]
    by (simp add: update_image_dates_scanned [OF scan] dir files resolve_start_date_def ok)
  then show ?thesis
    using files bytes by simp
qed

text \<open>
  C4, as amended. The list the loop walks is the matched full paths (each as often as
  the scan found it) in ascending order, the order being the lexicographic one on the
  code points of the whole path string: no case folding, no reading of digits as
  numbers. That list decides the assignment: in every run the files touched are an
  initial part of it. When no path holds an escaped byte, that is when the names are
  valid UTF-8, the list is in the lexicographic order of the paths' bytes as well.
\<close>

theorem sort_is_lexicographic_on_full_paths:
  "sorted (image_files_of E folder exts) \<and>
   sorted_wrt (\<lambda>a b. a = b \<or> (a, b) \<in> lexord {(c, d). c < d})
     (image_files_of E folder exts) \<and>
   mset (image_files_of E folder exts) =
     mset (collect E (valid_extensions_of exts) folder (listing E folder) []) \<and>
   (\<exists>k. touched (calls (update_image_dates E folder sd inc exts)) =
         take k (image_files_of E folder exts)) \<and>
   (list_all unescaped (image_files_of E folder exts) \<longrightarrow>
      sorted (map fsencode (image_files_of E folder exts)))"
proof -
  let ?fs = "image_files_of E folder exts"
  have s: "sorted ?fs"
    by (simp add: image_files_of_def)
  then have l: "sorted_wrt (\<lambda>a b. a = b \<or> (a, b) \<in> lexord {(c, d). c < d}) ?fs"
    by (simp add: str_le_lexord [abs_def] flip: sorted_wrt_map)
  have m: "mset ?fs = mset (collect E (valid_extensions_of exts) folder (listing E folder) [])"
    by (simp add: image_files_of_def)
  have b: "sorted (map fsencode ?fs)" if "list_all unescaped ?fs"
  proof -
    have "fsencode x \<le> fsencode y" if "x \<in> set ?fs" and "y \<in> set ?fs" and "x \<le> y" for x y
      using that \<open>list_all unescaped ?fs\<close> by (auto simp: list_all_iff intro: fsencode_mono_le)
    then have "sorted_wrt (\<lambda>x y. fsencode x \<le> fsencode y) ?fs"
      using s by (auto intro: sorted_wrt_mono_rel [of ?fs "(\<le>)"])
    then show ?thesis
      by (simp add: sorted_map)
  qed
  show ?thesis
    using s l m b update_image_dates_touched by blast
qed

text \<open>
  Upper case sorts before lower case (\<^verbatim>\<open>B.JPG\<close> before \<^verbatim>\<open>a.jpg\<close>), and \<^verbatim>\<open>img10.jpg\<close>
  before \<^verbatim>\<open>img9.jpg\<close>; the names are ASCII, and their bytes are in the same order.
\<close>

theorem sort_is_lexicographic_on_full_paths_witness:
  "image_files_of (example_env mixed_entries) (ascii ''/photos'') None =
     [ascii ''/photos/B.JPG'', ascii ''/photos/a.jpg'', ascii ''/photos/img10.jpg'',
      ascii ''/photos/img9.jpg''] \<and>
   sorted [ascii ''/photos/B.JPG'', ascii ''/photos/a.jpg'', ascii ''/photos/img10.jpg'',
      ascii ''/photos/img9.jpg''] \<and>
   touched (calls (update_image_dates (example_env mixed_entries) (ascii ''/photos'') NoDate 1
     None)) =
     [ascii ''/photos/B.JPG'', ascii ''/photos/a.jpg'', ascii ''/photos/img10.jpg'',
      ascii ''/photos/img9.jpg''] \<and>
   sorted (map fsencode
     [ascii ''/photos/B.JPG'', ascii ''/photos/a.jpg'', ascii ''/photos/img10.jpg'',
      ascii ''/photos/img9.jpg''])"
proof -
  have files: "image_files_of (example_env mixed_entries) (ascii ''/photos'') None =
     [ascii ''/photos/B.JPG'', ascii ''/photos/a.jpg'', ascii ''/photos/img10.jpg'',
      ascii ''/photos/img9.jpg'']"
    by code_simp
  have t: "touched (calls (update_image_dates (example_env mixed_entries) (ascii ''/photos'')
      NoDate 1 None)) =
     [ascii ''/photos/B.JPG'', ascii ''/photos/a.jpg'', ascii ''/photos/img10.jpg'',
      ascii ''/photos/img9.jpg'']"
    by code_simp
  have u: "list_all unescaped (image_files_of (example_env mixed_entries) (ascii ''/photos'') None)"
    unfolding files by (simp add: unescaped_def escaped_def ascii_simps)
  from sort_is_lexicographic_on_full_paths
    [of "example_env mixed_entries" "ascii ''/photos''" None NoDate 1] u
  have "sorted (image_files_of (example_env mixed_entries) (ascii ''/photos'') None)"
    and "sorted (map fsencode (image_files_of (example_env mixed_entries) (ascii ''/photos'') None))"
    by blast+
  then show ?thesis
    using files t by simp
qed

section \<open>The start date\<close>

text \<open>
  C7. A run whose start date is a text that the parser, given the format
  \<^verbatim>\<open>%Y-%m-%d %H:%M:%S\<close>, rejects runs no command. When the run reaches the start date
  (the folder is a directory, the increment is positive, the scan found a file), a
  text is parsed with that format: if the parser rejects it the run prints the
  date-format error, returns, and has run no command; if the parser accepts it the
  run is the run started from the date parsed. A run with no start date is the run
  started from the clock's reading, and a run started from a date gives that date
  to the first file.
\<close>

theorem start_date_resolution:
  "(strptime E s (ascii ''%Y-%m-%d %H:%M:%S'') = None \<longrightarrow>
      calls (update_image_dates E folder (DateStr s) inc exts) = []) \<and>
   (isdir E folder \<and> 0 < inc \<and> image_files_of E folder exts \<noteq> [] \<longrightarrow>
      (case strptime E s (ascii ''%Y-%m-%d %H:%M:%S'') of
         None \<Rightarrow>
           update_image_dates E folder (DateStr s) inc exts =
             \<lparr>exit_by = ReturnBadDate, calls = [], printed = [InvalidDateFormat]\<rparr>
       | Some parsed \<Rightarrow>
           update_image_dates E folder (DateStr s) inc exts =
             update_image_dates E folder (DateTime parsed) inc exts) \<and>
      update_image_dates E folder NoDate inc exts =
        update_image_dates E folder (DateTime (now E)) inc exts \<and>
      (\<exists>rest. calls (update_image_dates E folder (DateTime d) inc exts) =
         Touch d (hd (image_files_of E folder exts)) # rest))"
proof (cases "scandir E folder")
  case (Inl e)
  then show ?thesis
    by (simp add: update_image_dates_unscanned)
next
  case (Inr entries)
  have first: "\<exists>rest. calls (update_image_dates E folder (DateTime d) inc exts) =
         Touch d (hd (image_files_of E folder exts)) # rest"
    if "isdir E folder" and "0 < inc" and "image_files_of E folder exts \<noteq> []"
  proof -
    from that(3) obtain f fs where fs: "image_files_of E folder exts = f # fs"
      by (cases "image_files_of E folder exts") auto
    show ?thesis
      using that(1,2) process_files_first_call [of E inc "length (f # fs)" 1 f fs d]
      by (simp add: update_image_dates_scanned [OF Inr] fs resolve_start_date_def)
  qed
  show ?thesis
    using first
    by (auto simp: update_image_dates_scanned [OF Inr] resolve_start_date_def
        split: option.splits)
qed

text \<open>
  In the example folder the text \<^verbatim>\<open>2024-13-01\<close> is rejected and the error printed; the
  text \<^verbatim>\<open>2024-01-01 00:00:00\<close> starts the run at that date, which \<^verbatim>\<open>a.jpg\<close> gets.
\<close>

theorem start_date_resolution_witness:
  "update_image_dates (example_env spec_entries) (ascii ''/photos'')
       (DateStr (ascii ''2024-13-01'')) 60 None =
     \<lparr>exit_by = ReturnBadDate, calls = [], printed = [InvalidDateFormat]\<rparr> \<and>
   update_image_dates (example_env spec_entries) (ascii ''/photos'')
       (DateStr (ascii ''2024-01-01 00:00:00'')) 60 None =
     update_image_dates (example_env spec_entries) (ascii ''/photos'')
       (DateTime 63839664000000000) 60 None \<and>
   update_image_dates (example_env spec_entries) (ascii ''/photos'') NoDate 60 None =
     update_image_dates (example_env spec_entries) (ascii ''/photos'')
       (DateTime (now (example_env spec_entries))) 60 None \<and>
   (\<exists>rest. calls (update_image_dates (example_env spec_entries) (ascii ''/photos'')
       (DateTime 63839664000000000) 60 None) =
      Touch 63839664000000000 (ascii ''/photos/a.jpg'') # rest)"
proof -
  let ?E = "example_env spec_entries"
  have dir: "isdir ?E (ascii ''/photos'')"
    by code_simp
  have files: "image_files_of ?E (ascii ''/photos'') None =
      [ascii ''/photos/a.jpg'', ascii ''/photos/b.jpg'', ascii ''/photos/c.png'']"
    by code_simp
  have bad: "strptime ?E (ascii ''2024-13-01'') (ascii ''%Y-%m-%d %H:%M:%S'') = None"
    and good: "strptime ?E (ascii ''2024-01-01 00:00:00'') (ascii ''%Y-%m-%d %H:%M:%S'') =
      Some 63839664000000000"
    by code_simp+
  show ?thesis
    using start_date_resolution [of ?E "ascii ''2024-13-01''" "ascii ''/photos''" 60 None
        63839664000000000]
      start_date_resolution [of ?E "ascii ''2024-01-01 00:00:00''" "ascii ''/photos''" 60 None
        63839664000000000]
      dir bad good
    by (simp add: files)
qed

section \<open>An empty scan\<close>

text \<open>
  C8. When no file of the folder matches, no command is run. When moreover the run
  reaches the scan (the folder is a directory, the increment is positive) and the
  folder can be listed, the run prints the line about no image files, nothing else,
  and returns.
\<close>

theorem empty_folder_is_a_no_op:
  "(image_files_of E folder exts = [] \<longrightarrow>
      calls (update_image_dates E folder sd inc exts) = []) \<and>
   (isdir E folder \<and> 0 < inc \<and> scandir E folder = Inr entries \<and>
    image_files_of E folder exts = [] \<longrightarrow>
      update_image_dates E folder sd inc exts =
        \<lparr>exit_by = ReturnNoFiles, calls = [], printed = [NoImageFilesFound]\<rparr>)"
proof (cases "scandir E folder")
  case (Inl e)
  then show ?thesis
    by (simp add: update_image_dates_unscanned)
next
  case (Inr es)
  then show ?thesis
    by (auto simp: update_image_dates_scanned [OF Inr])
qed

theorem empty_folder_is_a_no_op_witness:
  "image_files_of (example_env mixed_entries) (ascii ''/photos'') (Some {ascii ''.gif''}) = [] \<and>
   update_image_dates (example_env mixed_entries) (ascii ''/photos'') NoDate 60
       (Some {ascii ''.gif''}) =
     \<lparr>exit_by = ReturnNoFiles, calls = [], printed = [NoImageFilesFound]\<rparr> \<and>
   update_image_dates (example_env []) (ascii ''/photos'') NoDate 60 None =
     \<lparr>exit_by = ReturnNoFiles, calls = [], printed = [NoImageFilesFound]\<rparr>"
proof -
  have e: "image_files_of (example_env mixed_entries) (ascii ''/photos'')
      (Some {ascii ''.gif''}) = []"
    and e': "image_files_of (example_env []) (ascii ''/photos'') None = []"
    by code_simp+
  have dir: "isdir (example_env mixed_entries) (ascii ''/photos'')"
    and dir': "isdir (example_env []) (ascii ''/photos'')"
    by code_simp+
  have scan: "scandir (example_env mixed_entries) (ascii ''/photos'') = Inr mixed_entries"
    and scan': "scandir (example_env []) (ascii ''/photos'') = Inr []"
    by (simp_all add: example_env_def)
  show ?thesis
    using empty_folder_is_a_no_op [of "example_env mixed_entries" "ascii ''/photos''"
        "Some {ascii ''.gif''}" NoDate 60 mixed_entries]
      empty_folder_is_a_no_op [of "example_env []" "ascii ''/photos''" None NoDate 60 "[]"]
      e e' dir dir' scan scan'
    by simp
qed

section \<open>An override set with upper-case entries\<close>

text \<open>
  A set that holds an upper-case entry beside a lower-case one still matches files,
  through the lower-case one.
\<close>

theorem uppercase_entry_counterexample:
  "lower (example_env spec_entries) (ascii ''.JPG'') \<noteq> ascii ''.JPG'' \<and>
   image_files_of (example_env spec_entries) (ascii ''/photos'')
       (Some {ascii ''.JPG'', ascii ''.png''}) =
     [ascii ''/photos/c.png''] \<and>
   exit_by (update_image_dates (example_env spec_entries) (ascii ''/photos'') NoDate 60
     (Some {ascii ''.JPG'', ascii ''.png''})) = LoopFinished"
  by code_simp

lemma ascii_capital_is_lowered:
  assumes "isascii u" and "list_ex (\<lambda>c. 65 \<le> c \<and> c \<le> 90) u"
  shows "lower E u \<noteq> u"
proof -
  from assms(2) obtain c where c: "c \<in> set u" "65 \<le> c" "c \<le> 90"
    by (auto simp: list_ex_iff)
  have "c \<notin> set (map ascii_lower u)"
    using c(2,3) by (auto simp: ascii_lower_def split: if_splits)
  then have "map ascii_lower u \<noteq> u"
    using c(1) by metis
  then show ?thesis
    using assms(1) by (simp add: lower_def)
qed

text \<open>
  C10, as amended. The caller's set is used as given and the file's extension is
  lower-cased before the membership test. Lowering twice gives what lowering once
  gives, as \<^verbatim>\<open>str.lower()\<close> does; so an entry that lowering changes is never
  equal to the extension tested, and every entry of ASCII characters with a capital
  among them is such an entry. A set in which every entry is changed by lowering
  matches no file, and a run that reaches the scan with it, in a folder that can be
  listed, ends as a run on an empty folder does.
\<close>

theorem uppercase_entries_match_nothing:
  assumes "\<And>x. lower E (lower E x) = lower E x"
  shows "valid_extensions_of (Some V) = V \<and>
   (is_image E V e \<longleftrightarrow> is_file e \<and> lower E (snd (splitext (name e))) \<in> V) \<and>
   (lower E u \<noteq> u \<longrightarrow> lower E (snd (splitext (name e))) \<noteq> u) \<and>
   (isascii u \<and> list_ex (\<lambda>c. 65 \<le> c \<and> c \<le> 90) u \<longrightarrow> lower E u \<noteq> u) \<and>
   ((\<forall>u \<in> V. lower E u \<noteq> u) \<longrightarrow>
      image_files_of E folder (Some V) = [] \<and>
      (isdir E folder \<and> 0 < inc \<and> scandir E folder = Inr entries \<longrightarrow>
         update_image_dates E folder sd inc (Some V) =
           \<lparr>exit_by = ReturnNoFiles, calls = [], printed = [NoImageFilesFound]\<rparr>))"
proof -
  have never: "lower E x \<noteq> u" if "lower E u \<noteq> u" for x u
    using that assms [of x] by auto
  have none: "image_files_of E folder (Some V) = []" if "\<forall>u \<in> V. lower E u \<noteq> u"
  proof -
    have "\<not> is_image E V e'" for e'
      using that never by (auto simp: is_image_def)
    then have "set (image_files_of E folder (Some V)) = {}"
      by (simp add: image_files_of_set valid_extensions_of_def)
    then show ?thesis by simp
  qed
  have run: "update_image_dates E folder sd inc (Some V) =
      \<lparr>exit_by = ReturnNoFiles, calls = [], printed = [NoImageFilesFound]\<rparr>"
    if "\<forall>u \<in> V. lower E u \<noteq> u" and "isdir E folder" and "0 < inc"
      and "scandir E folder = Inr entries"
    using none [OF that(1)] that(2,3) by (simp add: update_image_dates_scanned [OF that(4)])
  show ?thesis
    using never none run ascii_capital_is_lowered [of u E]
    by (auto simp: valid_extensions_of_def is_image_def)
qed

text \<open>
  Neither \<^verbatim>\<open>.JPG\<close> nor an entry that ends in U+00C9 matches a file of the example
  folder, \<^verbatim>\<open>B.JPG\<close> included.
\<close>

theorem uppercase_entries_match_nothing_witness:
  "lower (example_env mixed_entries) (ascii ''.JPG'') \<noteq> ascii ''.JPG'' \<and>
   lower (example_env mixed_entries) (ascii ''.jp'' @ [0xC9]) \<noteq> ascii ''.jp'' @ [0xC9] \<and>
   image_files_of (example_env mixed_entries) (ascii ''/photos'')
       (Some {ascii ''.JPG'', ascii ''.jp'' @ [0xC9]}) = [] \<and>
   update_image_dates (example_env mixed_entries) (ascii ''/photos'') NoDate 60
       (Some {ascii ''.JPG'', ascii ''.jp'' @ [0xC9]}) =
     \<lparr>exit_by = ReturnNoFiles, calls = [], printed = [NoImageFilesFound]\<rparr>"
proof -
  let ?E = "example_env mixed_entries"
  have up: "lower ?E (ascii ''.JPG'') \<noteq> ascii ''.JPG''"
    "lower ?E (ascii ''.jp'' @ [0xC9]) \<noteq> ascii ''.jp'' @ [0xC9]"
    by (simp_all add: example_lower example_lower_char_def ascii_lower_def ascii_simps)
  then have all: "\<forall>u \<in> {ascii ''.JPG'', ascii ''.jp'' @ [0xC9]}. lower ?E u \<noteq> u"
    by simp
  have dir: "isdir ?E (ascii ''/photos'')"
    by code_simp
  have scan: "scandir ?E (ascii ''/photos'') = Inr mixed_entries"
    by (simp add: example_env_def)
  show ?thesis
    using uppercase_entries_match_nothing [of ?E "{ascii ''.JPG'', ascii ''.jp'' @ [0xC9]}" _ _
        "ascii ''/photos''" 60 mixed_entries NoDate, OF example_lower_idem] all dir scan up
    by simp
qed

section \<open>Abort on the first failure\<close>

text \<open>A loop over \<open>pre @ rest\<close> whose part over \<open>pre\<close> runs to its end goes on with \<open>rest\<close>.\<close>

lemma process_files_append:
  "exit_by (process_files E inc n i pre d) = LoopFinished \<Longrightarrow>
   process_files E inc n i (pre @ rest) d =
     preceded_by (calls (process_files E inc n i pre d)) (printed (process_files E inc n i pre d))
       (process_files E inc n (i + length pre) rest
          (d + int (length pre) * timedelta_minutes inc))"
proof (induction pre arbitrary: i d)
  case Nil
  then show ?case by (simp add: preceded_by_def)
next
  case (Cons f fs)
  from Cons.prems obtain d' where
    add: "datetime_add d (timedelta_minutes inc) = Inr d'" and
    t: "subprocess_run E (Touch d f) = Inr ()" and
    s: "subprocess_run E (SetFile d f) = Inr ()" and
    fin: "exit_by (process_files E inc n (Suc i) fs d') = LoopFinished"
    by (auto simp: Let_def split: sum.splits)
  have d': "d' = d + timedelta_minutes inc"
    using add by (rule datetime_add_Inr)
  have step: "d + timedelta_minutes inc + int (length fs) * timedelta_minutes inc =
      d + (1 + int (length fs)) * timedelta_minutes inc"
    by (simp add: algebra_simps)
  show ?case
    using Cons.IH [OF fin] add t s
    by (simp add: d' step preceded_by_def)
qed

text \<open>
  When every file before \<open>B\<close> went through and a command for \<open>B\<close> raises \<open>e\<close>, the
  run is: the commands and lines of the files before \<open>B\<close>, the commands for \<open>B\<close> up
  to the one that raised, and the \<^verbatim>\<open>except\<close> clause. The files after \<open>B\<close> do not
  occur: no command is run for them, and nothing already done is undone.
\<close>

lemma abort_on_first_failure:
  assumes "exit_by (process_files E inc n i pre d) = LoopFinished"
    and "dB = d + int (length pre) * timedelta_minutes inc"
  shows "subprocess_run E (Touch dB B) = Inl e \<Longrightarrow>
           process_files E inc n i (pre @ B # post) d =
             preceded_by (calls (process_files E inc n i pre d) @ [Touch dB B])
               (printed (process_files E inc n i pre d)) (except_clause B e)"
    and "subprocess_run E (Touch dB B) = Inr () \<Longrightarrow>
         subprocess_run E (SetFile dB B) = Inl e \<Longrightarrow>
           process_files E inc n i (pre @ B # post) d =
             preceded_by (calls (process_files E inc n i pre d) @ [Touch dB B, SetFile dB B])
               (printed (process_files E inc n i pre d)) (except_clause B e)"
  using assms by (simp_all add: process_files_append preceded_by_def)

text \<open>
  The \<^verbatim>\<open>except\<close> clause reports a command that exited with a non-zero code, and lets
  a \<^verbatim>\<open>FileNotFoundError\<close> through without a line.
\<close>

lemma except_clause_reports:
  "printed (except_clause B (CalledProcessError c rc)) =
     ErrorUpdating B (CalledProcessError c rc) #
       (if mentions_SetFile c then [NoteSetFileNotFound, NoteInstallWith] else [])"
  "exit_by (except_clause B (CalledProcessError c rc)) =
     (if mentions_SetFile c then BreakAfterError else ReturnAfterError)"
  "except_clause B FileNotFoundError =
     \<lparr>exit_by = Raised FileNotFoundError, calls = [], printed = []\<rparr>"
  by simp_all

lemma subprocess_run_cases:
  "subprocess_run E c = Inr () \<longleftrightarrow> spawn E c = Exit 0"
  "subprocess_run E c = Inl FileNotFoundError \<longleftrightarrow> spawn E c = NoSuchCommand"
  "subprocess_run E c = Inl PermissionError \<longleftrightarrow> spawn E c = NotExecutable"
  "subprocess_run E c = Inl (CalledProcessError c' rc) \<longleftrightarrow> c' = c \<and> rc \<noteq> 0 \<and> spawn E c = Exit rc"
  "subprocess_run E c \<noteq> Inl OverflowError"
  by (auto simp: subprocess_run_def split: proc_outcome.splits)

text \<open>
  The specification's abort example: \<^verbatim>\<open>SetFile\<close> exits with 1 for \<^verbatim>\<open>b.jpg\<close>. Then
  \<^verbatim>\<open>a.jpg\<close> is updated, the error for \<^verbatim>\<open>b.jpg\<close> is printed, and \<^verbatim>\<open>c.png\<close> gets no
  command.
\<close>

lemma failed_command_is_reported:
  "update_image_dates
     ((example_env spec_entries)
        \<lparr>spawn := (\<lambda>c. if c = SetFile 63839667600000000 (ascii ''/photos/b.jpg'')
                         then Exit 1 else Exit 0)\<rparr>)
     (ascii ''/photos'') (DateStr (ascii ''2024-01-01 00:00:00'')) 60 None =
   \<lparr>exit_by = BreakAfterError,
    calls = [Touch 63839664000000000 (ascii ''/photos/a.jpg''),
             SetFile 63839664000000000 (ascii ''/photos/a.jpg''),
             Touch 63839667600000000 (ascii ''/photos/b.jpg''),
             SetFile 63839667600000000 (ascii ''/photos/b.jpg'')],
    printed = [FoundImageFiles 3, StartingDate 63839664000000000, IncrementMinutes 60,
               Updated 1 3 (ascii ''a.jpg'') 63839664000000000,
               ErrorUpdating (ascii ''/photos/b.jpg'')
                 (CalledProcessError (SetFile 63839667600000000 (ascii ''/photos/b.jpg'')) 1),
               NoteSetFileNotFound, NoteInstallWith]\<rparr>"
  by code_simp

text \<open>
  C2, where the code departs from it. On a machine without \<^verbatim>\<open>SetFile\<close> the call for
  the first file fails by raising \<^verbatim>\<open>FileNotFoundError\<close>, which the \<^verbatim>\<open>except\<close> clause
  does not catch: the run stops there and no later command is run, but no error line
  for the file is printed.
\<close>

theorem missing_SetFile_is_not_reported:
  "update_image_dates ((example_env spec_entries)\<lparr>spawn := without_SetFile\<rparr>)
     (ascii ''/photos'') (DateStr (ascii ''2024-01-01 00:00:00'')) 60 None =
   \<lparr>exit_by = Raised FileNotFoundError,
    calls = [Touch 63839664000000000 (ascii ''/photos/a.jpg''),
             SetFile 63839664000000000 (ascii ''/photos/a.jpg'')],
    printed = [FoundImageFiles 3, StartingDate 63839664000000000, IncrementMinutes 60]\<rparr>"
  by code_simp

section \<open>Exceptions that leave the function\<close>

text \<open>
  C3, where the code departs from it. The caller receives \<^verbatim>\<open>FileNotFoundError\<close> when
  \<^verbatim>\<open>SetFile\<close> is not installed, and \<^verbatim>\<open>OverflowError\<close> when the date after the
  increment would lie beyond \<^verbatim>\<open>datetime.max\<close> (here the start is 9999-12-31 23:30:00
  and the increment 60 minutes).
\<close>

theorem exceptions_reach_the_caller:
  "exit_by (update_image_dates ((example_env spec_entries)\<lparr>spawn := without_SetFile\<rparr>)
     (ascii ''/photos'') NoDate 60 None) = Raised FileNotFoundError \<and>
   exit_by (update_image_dates (example_env spec_entries)
     (ascii ''/photos'') (DateTime 315537895800000000) 60 None) = Raised OverflowError"
  by code_simp

end
